theory Spec2Isabelle
  imports Main "HOL-Library.AList"
begin

section \<open>JavaScript strings\<close>

text \<open>
  A JavaScript string is a sequence of UTF-16 code units, and a regular expression without
  the \<^verbatim>\<open>u\<close> flag matches code unit by code unit. A string is therefore a list of
  code units (natural numbers); ASCII literals are written \<open>js ''...''\<close>. The two glyphs of
  the pretty output format lie in the Basic Multilingual Plane: one code unit each.
\<close>

type_synonym jsstring = "nat list"

abbreviation (input) js :: "string \<Rightarrow> jsstring" where
  "js s \<equiv> map of_char s"

definition checkGlyph :: nat where
  "checkGlyph = 10003"

definition crossGlyph :: nat where
  "crossGlyph = 10007"

text \<open>The character classes \<^verbatim>\<open>\w\<close>, \<^verbatim>\<open>\d\<close> and \<^verbatim>\<open>\s\<close> of ECMAScript.\<close>

definition isWord :: "nat \<Rightarrow> bool" where
  "isWord c \<longleftrightarrow> (48 \<le> c \<and> c \<le> 57) \<or> (65 \<le> c \<and> c \<le> 90) \<or> c = 95 \<or> (97 \<le> c \<and> c \<le> 122)"

definition isDigit :: "nat \<Rightarrow> bool" where
  "isDigit c \<longleftrightarrow> 48 \<le> c \<and> c \<le> 57"

definition isSpace :: "nat \<Rightarrow> bool" where
  "isSpace c \<longleftrightarrow> (9 \<le> c \<and> c \<le> 13) \<or> c = 32 \<or> c = 160 \<or> c = 5760
     \<or> (8192 \<le> c \<and> c \<le> 8202) \<or> c = 8232 \<or> c = 8233 \<or> c = 8239 \<or> c = 8287
     \<or> c = 12288 \<or> c = 65279"

text \<open>
  \<^verbatim>\<open>toLowerCase\<close> and \<^verbatim>\<open>toUpperCase\<close>, on the ASCII letters (test names are
  PHP identifiers and the status words are ASCII); other code units are left as they are.
\<close>

definition toLowerUnit :: "nat \<Rightarrow> nat" where
  "toLowerUnit c = (if 65 \<le> c \<and> c \<le> 90 then c + 32 else c)"

definition toUpperUnit :: "nat \<Rightarrow> nat" where
  "toUpperUnit c = (if 97 \<le> c \<and> c \<le> 122 then c - 32 else c)"

definition toLowerCase :: "jsstring \<Rightarrow> jsstring" where
  "toLowerCase s = map toLowerUnit s"

definition toUpperCase :: "jsstring \<Rightarrow> jsstring" where
  "toUpperCase s = map toUpperUnit s"

text \<open>\<^verbatim>\<open>s.trim()\<close>: white space and line terminators removed at both ends.\<close>

definition trim :: "jsstring \<Rightarrow> jsstring" where
  "trim s = rev (dropWhile isSpace (rev (dropWhile isSpace s)))"

text \<open>\<^verbatim>\<open>s.startsWith(p)\<close> and \<^verbatim>\<open>s.includes(p)\<close>.\<close>

fun startsWith :: "jsstring \<Rightarrow> jsstring \<Rightarrow> bool" where
  "startsWith s [] = True"
| "startsWith [] (p # ps) = False"
| "startsWith (c # cs) (p # ps) = (c = p \<and> startsWith cs ps)"

fun jsIncludes :: "jsstring \<Rightarrow> jsstring \<Rightarrow> bool" where
  "jsIncludes [] p = (p = [])"
| "jsIncludes (c # cs) p = (startsWith (c # cs) p \<or> jsIncludes cs p)"

text \<open>
  \<^verbatim>\<open>s.split('\n')\<close>: the pieces between line feeds; the result is never empty, and its
  last piece is what follows the last line feed.
\<close>

fun splitNL :: "jsstring \<Rightarrow> jsstring list" where
  "splitNL [] = [[]]"
| "splitNL (c # cs) =
     (if c = 10 then [] # splitNL cs
      else (case splitNL cs of [] \<Rightarrow> [[c]] | l # ls \<Rightarrow> (c # l) # ls))"


section \<open>Regular expressions of the output parser\<close>

text \<open>
  The fragment of ECMAScript regular expressions that \<^verbatim>\<open>parseLine\<close> uses, with the
  backtracking semantics of the language: a quantifier is greedy and gives characters back one
  at a time, alternatives are tried from left to right, an unanchored expression is tried at
  every start position from the left, and the first success is the match.
\<close>

datatype rx =
    One "nat \<Rightarrow> bool"
  | Star "nat \<Rightarrow> bool"
  | Plus "nat \<Rightarrow> bool"
  | Lits "jsstring list"
  | Optional "rx list"
  | GOpen
  | GClose

fun first_some :: "'a option list \<Rightarrow> 'a option" where
  "first_some [] = None"
| "first_some (x # xs) = (case x of Some y \<Rightarrow> Some y | None \<Rightarrow> first_some xs)"

text \<open>
  What can remain of the input after a greedy run over a class: the shortest remainder (the
  longest run) first.
\<close>

fun rests :: "(nat \<Rightarrow> bool) \<Rightarrow> jsstring \<Rightarrow> jsstring list" where
  "rests p [] = [[]]"
| "rests p (c # cs) = (if p c then rests p cs @ [c # cs] else [c # cs])"

text \<open>A literal word at the head of the input, compared ignoring case (flag \<^verbatim>\<open>i\<close>).\<close>

fun strip_ci :: "jsstring \<Rightarrow> jsstring \<Rightarrow> jsstring option" where
  "strip_ci [] s = Some s"
| "strip_ci (w # ws) [] = None"
| "strip_ci (w # ws) (c # cs) =
     (if toLowerUnit w = toLowerUnit c then strip_ci ws cs else None)"

text \<open>
  \<open>rmatch r s g caps\<close> matches \<open>r\<close> at the head of \<open>s\<close>; \<open>g\<close> is the input at the point
  where the open capture group began, \<open>caps\<close> the captures completed so far. The result is
  the list of captures of the first successful match.
\<close>

function rmatch :: "rx list \<Rightarrow> jsstring \<Rightarrow> jsstring option \<Rightarrow> jsstring list \<Rightarrow> jsstring list option" where
  "rmatch [] s g caps = Some caps"
| "rmatch (One p # r) s g caps =
     (case s of [] \<Rightarrow> None | c # cs \<Rightarrow> if p c then rmatch r cs g caps else None)"
| "rmatch (Star p # r) s g caps = first_some (map (\<lambda>t. rmatch r t g caps) (rests p s))"
| "rmatch (Plus p # r) s g caps =
     (case s of [] \<Rightarrow> None
      | c # cs \<Rightarrow> if p c then first_some (map (\<lambda>t. rmatch r t g caps) (rests p cs)) else None)"
| "rmatch (Lits ws # r) s g caps =
     first_some (map (\<lambda>w. case strip_ci w s of None \<Rightarrow> None | Some t \<Rightarrow> rmatch r t g caps) ws)"
| "rmatch (Optional xs # r) s g caps =
     (case rmatch (xs @ r) s g caps of Some c \<Rightarrow> Some c | None \<Rightarrow> rmatch r s g caps)"
| "rmatch (GOpen # r) s g caps = rmatch r s (Some s) caps"
| "rmatch (GClose # r) s g caps =
     (case g of None \<Rightarrow> None
      | Some s0 \<Rightarrow> rmatch r s None (caps @ [take (length s0 - length s) s0]))"
  by pat_completeness auto
termination
  by (relation "measure (\<lambda>(r, s, g, caps). size_list size r)") auto

text \<open>An expression anchored with \<^verbatim>\<open>^\<close> is tried at the start of the line only.\<close>

definition anchored :: "rx list \<Rightarrow> jsstring \<Rightarrow> jsstring list option" where
  "anchored r s = rmatch r s None []"

fun search :: "rx list \<Rightarrow> jsstring \<Rightarrow> jsstring list option" where
  "search r [] = rmatch r [] None []"
| "search r (c # cs) =
     (case rmatch r (c # cs) None [] of Some x \<Rightarrow> Some x | None \<Rightarrow> search r cs)"

text \<open>An expression without capture groups and optional groups.\<close>

fun plain :: "rx list \<Rightarrow> bool" where
  "plain [] = True"
| "plain (One p # r) = plain r"
| "plain (Star p # r) = plain r"
| "plain (Plus p # r) = plain r"
| "plain (Lits ws # r) = plain r"
| "plain (x # r) = False"

definition chr :: "char \<Rightarrow> rx" where
  "chr c = One (\<lambda>x. x = of_char c)"

definition chr_i :: "char \<Rightarrow> rx" where
  "chr_i c = One (\<lambda>x. toLowerUnit x = toLowerUnit (of_char c))"

definition statusWords :: "jsstring list" where
  "statusWords = [js ''OK'', js ''FAILED'', js ''PASSED'', js ''ERROR'']"

text \<open>\<^verbatim>\<open>/[U+2713 U+2717]\s+(\w+)(?:\s+\([^)]+\))?/\<close>\<close>

definition checkmarkRe :: "rx list" where
  "checkmarkRe =
     [One (\<lambda>c. c = checkGlyph \<or> c = crossGlyph), Plus isSpace, GOpen, Plus isWord, GClose,
      Optional [Plus isSpace, chr CHR ''('', Plus (\<lambda>c. c \<noteq> of_char CHR '')''), chr CHR '')'']]"

text \<open>\<^verbatim>\<open>/^(\w+):\s*(OK|FAILED|PASSED|ERROR)/i\<close>\<close>

definition colonRe :: "rx list" where
  "colonRe =
     [GOpen, Plus isWord, GClose, chr CHR '':'', Star isSpace, GOpen, Lits statusWords, GClose]"

text \<open>\<^verbatim>\<open>/^(\w+)\s+\([^)]+\)\s+\.\.\.\s+(OK|FAILED|PASSED|ERROR)/i\<close>\<close>

definition verboseRe :: "rx list" where
  "verboseRe =
     [GOpen, Plus isWord, GClose, Plus isSpace, chr CHR ''('',
      Plus (\<lambda>c. c \<noteq> of_char CHR '')''), chr CHR '')'', Plus isSpace,
      chr CHR ''.'', chr CHR ''.'', chr CHR ''.'', Plus isSpace,
      GOpen, Lits statusWords, GClose]"

text \<open>\<^verbatim>\<open>/^ok\s+\d+\s+-\s+(\w+)/i\<close>\<close>

definition tapOkRe :: "rx list" where
  "tapOkRe =
     [chr_i CHR ''o'', chr_i CHR ''k'', Plus isSpace, Plus isDigit, Plus isSpace,
      chr CHR ''-'', Plus isSpace, GOpen, Plus isWord, GClose]"

text \<open>\<^verbatim>\<open>/^not\s+ok\s+\d+\s+-\s+(\w+)/i\<close>\<close>

definition tapFailRe :: "rx list" where
  "tapFailRe =
     [chr_i CHR ''n'', chr_i CHR ''o'', chr_i CHR ''t'', Plus isSpace,
      chr_i CHR ''o'', chr_i CHR ''k'', Plus isSpace, Plus isDigit, Plus isSpace,
      chr CHR ''-'', Plus isSpace, GOpen, Plus isWord, GClose]"

text \<open>\<^verbatim>\<open>/Test\s+[^\s]+:([A-Za-z0-9_]+)/\<close>\<close>

definition detailedRe :: "rx list" where
  "detailedRe =
     [chr CHR ''T'', chr CHR ''e'', chr CHR ''s'', chr CHR ''t'', Plus isSpace,
      Plus (\<lambda>c. \<not> isSpace c), chr CHR '':'', GOpen, Plus isWord, GClose]"


section \<open>The streaming executor (StreamingTestExecutor)\<close>

text \<open>
  The callbacks of \<^verbatim>\<open>StreamingOptions\<close> that the executor invokes while output
  arrives, in the order of invocation.
\<close>

datatype callback =
    OnOutput jsstring
  | OnTestResult jsstring bool jsstring

record executor =
  lineBuffer :: jsstring
  stderrBuffer :: jsstring

definition initialExecutor :: executor where
  "initialExecutor = \<lparr> lineBuffer = [], stderrBuffer = [] \<rparr>"

definition isPassStatus :: "jsstring \<Rightarrow> bool" where
  "isPassStatus status \<longleftrightarrow> toUpperCase status = js ''OK'' \<or> toUpperCase status = js ''PASSED''"

text \<open>
  \<^verbatim>\<open>parseLine\<close>: the recognisers in the order of the source, each returning after its
  \<^verbatim>\<open>onTestResult\<close> call; a line that none recognises invokes nothing.
\<close>

definition parseLine :: "jsstring \<Rightarrow> callback list" where
  "parseLine line =
     (if line = [] then []
      else case search checkmarkRe line of
        Some (testName # _) \<Rightarrow> [OnTestResult testName (jsIncludes line [checkGlyph]) line]
      | _ \<Rightarrow>
      (case anchored colonRe line of
        Some (testName # status # _) \<Rightarrow> [OnTestResult testName (isPassStatus status) line]
      | _ \<Rightarrow>
      (case anchored verboseRe line of
        Some (testName # status # _) \<Rightarrow> [OnTestResult testName (isPassStatus status) line]
      | _ \<Rightarrow>
      (case anchored tapOkRe line of
        Some (testName # _) \<Rightarrow> [OnTestResult testName True line]
      | _ \<Rightarrow>
      (case anchored tapFailRe line of
        Some (testName # _) \<Rightarrow> [OnTestResult testName False line]
      | _ \<Rightarrow>
      (case search detailedRe line of
        Some (testName # _) \<Rightarrow> [OnTestResult testName False line]
      | _ \<Rightarrow> []))))))"

text \<open>
  \<^verbatim>\<open>processChunk\<close>: the chunk is appended to the line buffer, the buffer is split at
  line feeds, the last piece stays in the buffer and every other piece is trimmed and parsed.
\<close>

definition processChunk :: "jsstring \<Rightarrow> executor \<Rightarrow> callback list \<times> executor" where
  "processChunk chunk ex =
     (let lines = splitNL (lineBuffer ex @ chunk);
          rest = (if lines = [] then [] else last lines)
      in (concat (map (\<lambda>line. parseLine (trim line)) (butlast lines)),
          ex \<lparr> lineBuffer := rest \<rparr>))"

text \<open>The \<^verbatim>\<open>data\<close> handlers that \<^verbatim>\<open>executeWithStreaming\<close> installs on the two pipes.\<close>

definition stdoutData :: "jsstring \<Rightarrow> executor \<Rightarrow> callback list \<times> executor" where
  "stdoutData data ex =
     (let (cbs, ex') = processChunk data ex in (OnOutput data # cbs, ex'))"

definition stderrData :: "jsstring \<Rightarrow> executor \<Rightarrow> callback list \<times> executor" where
  "stderrData data ex =
     (let ex1 = ex \<lparr> stderrBuffer := stderrBuffer ex @ data \<rparr>;
          (cbs, ex') = processChunk data ex1
      in (OnOutput data # cbs, ex'))"



section \<open>Test items and the test run\<close>

text \<open>
  A \<^verbatim>\<open>vscode.TestItem\<close> has an id, an optional resource (its file system path) and
  children. A \<^verbatim>\<open>vscode.TestRun\<close> holds the state last reported for each item, by
  item id; the message given with a failure does not take part in any state and is left out.
\<close>

datatype Outcome = Unset | Running | Passed | Failed | Skipped

datatype TestItem = TestItem (itemId: jsstring) (fsPath: "jsstring option") (children: "TestItem list")

type_synonym TestRun = "jsstring \<Rightarrow> Outcome"

definition newRun :: TestRun where
  "newRun = (\<lambda>_. Unset)"

definition started :: "TestItem \<Rightarrow> TestRun \<Rightarrow> TestRun" where
  "started t r = r (itemId t := Running)"

definition passed :: "TestItem \<Rightarrow> TestRun \<Rightarrow> TestRun" where
  "passed t r = r (itemId t := Passed)"

definition failed :: "TestItem \<Rightarrow> TestRun \<Rightarrow> TestRun" where
  "failed t r = r (itemId t := Failed)"

definition skipped :: "TestItem \<Rightarrow> TestRun \<Rightarrow> TestRun" where
  "skipped t r = r (itemId t := Skipped)"

definition terminal :: "Outcome \<Rightarrow> bool" where
  "terminal out \<longleftrightarrow> out = Passed \<or> out = Failed \<or> out = Skipped"

text \<open>
  A JavaScript \<^verbatim>\<open>Map\<close> with string keys, in insertion order: \<^verbatim>\<open>set\<close> is
  \<open>AList.update\<close> (an existing key keeps its place), \<^verbatim>\<open>get\<close> is \<open>map_of\<close>.
\<close>

type_synonym 'v jsmap = "(jsstring \<times> 'v) list"

definition mapHas :: "'v jsmap \<Rightarrow> jsstring \<Rightarrow> bool" where
  "mapHas m k \<longleftrightarrow> map_of m k \<noteq> None"

text \<open>\<^verbatim>\<open>id.split('::')\<close>, and \<^verbatim>\<open>extractMethodName\<close>: its last piece.\<close>

fun splitColons :: "jsstring \<Rightarrow> jsstring list" where
  "splitColons [] = [[]]"
| "splitColons [a] = [[a]]"
| "splitColons (a # b # cs) =
     (if a = 58 \<and> b = 58 then [] # splitColons cs
      else (case splitColons (b # cs) of [] \<Rightarrow> [[a]] | l # ls \<Rightarrow> (a # l) # ls))"

definition extractMethodName :: "jsstring \<Rightarrow> jsstring" where
  "extractMethodName testId = (case splitColons testId of [] \<Rightarrow> [] | ps \<Rightarrow> last ps)"


section \<open>The name index (buildTestNameMap)\<close>

definition registerNames :: "TestItem \<Rightarrow> TestItem jsmap \<Rightarrow> TestItem jsmap" where
  "registerNames test m =
     (if jsIncludes (itemId test) (js ''::'') then
        (let methodName = extractMethodName (itemId test) in
         if methodName \<noteq> [] then
           (let m1 = AList.update methodName test m;
                m2 = AList.update (toLowerCase methodName) test m1
            in if startsWith (toLowerCase methodName) (js ''test'') then
                 (let withoutTest = drop 4 methodName;
                      m3 = AList.update withoutTest test m2
                  in AList.update (toLowerCase withoutTest) test m3)
               else m2)
         else m)
      else m)"

fun addTest :: "TestItem \<Rightarrow> TestItem jsmap \<Rightarrow> TestItem jsmap" where
  "addTest (TestItem i u cs) m = fold addTest cs (registerNames (TestItem i u cs) m)"

definition buildTestNameMap :: "TestItem \<Rightarrow> TestItem jsmap" where
  "buildTestNameMap parentTest = fold addTest (children parentTest) []"


section \<open>Streaming results (executeTestWithStreaming)\<close>

record streaming =
  testRun :: TestRun
  seenTests :: "jsstring set"
  testResults :: "(bool \<times> jsstring) jsmap"

definition newStreaming :: "TestRun \<Rightarrow> streaming" where
  "newStreaming r = \<lparr> testRun = r, seenTests = {}, testResults = [] \<rparr>"

text \<open>The \<^verbatim>\<open>onTestResult\<close> callback: the first result for a name marks the item.\<close>

definition onTestResult :: "TestItem jsmap \<Rightarrow> jsstring \<Rightarrow> bool \<Rightarrow> jsstring \<Rightarrow> streaming \<Rightarrow> streaming" where
  "onTestResult testNameMap testName pass output st =
     (case map_of testNameMap testName of
        None \<Rightarrow> st
      | Some testItem \<Rightarrow>
          if testName \<in> seenTests st then st
          else st \<lparr> testRun := (if pass then passed testItem else failed testItem)
                                 (started testItem (testRun st)),
                    seenTests := insert testName (seenTests st),
                    testResults := AList.update testName (pass, output) (testResults st) \<rparr>)"

definition deliver :: "TestItem jsmap \<Rightarrow> callback list \<Rightarrow> streaming \<Rightarrow> streaming" where
  "deliver testNameMap cbs st =
     fold (\<lambda>cb s. case cb of OnOutput d \<Rightarrow> s
                   | OnTestResult n p l \<Rightarrow> onTestResult testNameMap n p l s) cbs st"

text \<open>\<^verbatim>\<open>markUnseenTests\<close>: every name of the index that is not in \<open>seenTests\<close>.\<close>

definition markUnseenTests :: "TestItem jsmap \<Rightarrow> jsstring set \<Rightarrow> TestRun \<Rightarrow> TestRun" where
  "markUnseenTests testNameMap seen r =
     fold (\<lambda>(testName, testItem) r'.
             if testName \<notin> seen then passed testItem (started testItem r') else r')
          testNameMap r"


section \<open>The JUnit report (JunitParser)\<close>

text \<open>
  The XML reader (\<^verbatim>\<open>xml2js\<close>, with \<^verbatim>\<open>explicitArray: false\<close> and
  \<^verbatim>\<open>mergeAttrs: true\<close>) is outside the repository: it is a parameter, a function from
  the text to the parsed document, or to an exception when it rejects the text. A child element of a
  test case arrives as a string (an element with text only; the empty string for an empty element)
  or as an object with the attributes and the text. The \<^verbatim>\<open>time\<close> attribute of a
  test case, a floating-point number that no state depends on, is left out.
\<close>

datatype xml_elem =
    Text jsstring
  | Element (attrMessage: "jsstring option") (attrType: "jsstring option") (elemText: "jsstring option")

record testcase =
  tc_name :: jsstring
  tc_classname :: "jsstring option"
  tc_class :: "jsstring option"
  tc_failure :: "xml_elem option"
  tc_error :: "xml_elem option"
  tc_skipped :: "xml_elem option"

record testsuite =
  ts_name :: "jsstring option"
  ts_testcase :: "testcase list"

record parsed_xml =
  wrappedSuites :: "testsuite list option"
  directSuites :: "testsuite list option"

datatype JUnitStatus = StatusPassed | StatusFailed | StatusSkipped | StatusError

record failure_info =
  fi_message :: jsstring
  fi_type :: jsstring
  fi_content :: jsstring

record JUnitTestResult =
  jr_name :: jsstring
  jr_className :: "jsstring option"
  jr_status :: JUnitStatus
  jr_failure :: "failure_info option"
  jr_error :: "failure_info option"

text \<open>Truthiness of a child, and \<^verbatim>\<open>a || b\<close> on strings that may be undefined.\<close>

fun truthy :: "xml_elem option \<Rightarrow> bool" where
  "truthy None = False"
| "truthy (Some (Text s)) = (s \<noteq> [])"
| "truthy (Some (Element m t c)) = True"

definition strOr :: "jsstring option \<Rightarrow> jsstring option \<Rightarrow> jsstring option" where
  "strOr a b = (case a of Some s \<Rightarrow> if s \<noteq> [] then Some s else b | None \<Rightarrow> b)"

definition strOrEmpty :: "jsstring option \<Rightarrow> jsstring" where
  "strOrEmpty a = (case a of Some s \<Rightarrow> s | None \<Rightarrow> [])"

fun parseFailureOrError :: "xml_elem \<Rightarrow> failure_info" where
  "parseFailureOrError (Text s) =
     \<lparr> fi_message = s, fi_type = js ''AssertionError'', fi_content = s \<rparr>"
| "parseFailureOrError (Element m t c) =
     \<lparr> fi_message = strOrEmpty (strOr m c),
       fi_type = strOrEmpty (strOr t (Some (js ''Error''))),
       fi_content = strOrEmpty (strOr c m) \<rparr>"

definition parseTestCase :: "testcase \<Rightarrow> jsstring option \<Rightarrow> JUnitTestResult" where
  "parseTestCase tc suiteName =
     (let r0 = \<lparr> jr_name = tc_name tc,
                 jr_className = strOr (strOr (tc_classname tc) (tc_class tc)) suiteName,
                 jr_status = StatusPassed, jr_failure = None, jr_error = None \<rparr>;
          r1 = (case tc_failure tc of
                  Some e \<Rightarrow> if truthy (Some e)
                            then r0 \<lparr> jr_status := StatusFailed, jr_failure := Some (parseFailureOrError e) \<rparr>
                            else r0
                | None \<Rightarrow> r0);
          r2 = (case tc_error tc of
                  Some e \<Rightarrow> if truthy (Some e)
                            then r1 \<lparr> jr_status := StatusError, jr_error := Some (parseFailureOrError e) \<rparr>
                            else r1
                | None \<Rightarrow> r1)
      in if truthy (tc_skipped tc) then r2 \<lparr> jr_status := StatusSkipped \<rparr> else r2)"

definition extractTestSuites :: "parsed_xml \<Rightarrow> testsuite list" where
  "extractTestSuites p =
     (let direct = (case directSuites p of Some ss \<Rightarrow> ss | None \<Rightarrow> [])
      in case wrappedSuites p of
           Some ss \<Rightarrow> if ss \<noteq> [] then ss else direct
         | None \<Rightarrow> direct)"

text \<open>A result is stored under its name, the lower-cased name and the name without "test".\<close>

definition storeResult :: "JUnitTestResult \<Rightarrow> JUnitTestResult jsmap \<Rightarrow> JUnitTestResult jsmap" where
  "storeResult result results =
     (let r1 = AList.update (jr_name result) result results;
          r2 = AList.update (toLowerCase (jr_name result)) result r1
      in if startsWith (toLowerCase (jr_name result)) (js ''test'') then
           (let withoutTest = drop 4 (jr_name result);
                r3 = AList.update withoutTest result r2
            in AList.update (toLowerCase withoutTest) result r3)
         else r2)"

text \<open>
  Where the report is read from: the container (when Docker is in use and the read succeeds),
  otherwise the host file. Reading the host file and parsing the text may throw; an exception
  is a value of type \<open>js_error\<close>.
\<close>

datatype js_error = ReadError | XmlError

record report_source =
  containerContent :: "jsstring option"
  hostExists :: bool
  hostContent :: "js_error + jsstring"

text \<open>The \<^verbatim>\<open>try\<close> block of \<^verbatim>\<open>parseJUnitXml\<close>.\<close>

definition parseJUnitXmlTry ::
  "(jsstring \<Rightarrow> js_error + parsed_xml) \<Rightarrow> report_source \<Rightarrow> js_error + JUnitTestResult jsmap" where
  "parseJUnitXmlTry xml2js src =
     (let fromContainer = strOrEmpty (containerContent src) in
      if fromContainer = [] \<and> \<not> hostExists src then Inr []
      else case (if fromContainer = [] then hostContent src else Inr fromContainer) of
        Inl e \<Rightarrow> Inl e
      | Inr xmlContent \<Rightarrow>
          if xmlContent = [] \<or> trim xmlContent = [] then Inr []
          else (case xml2js xmlContent of
            Inl e \<Rightarrow> Inl e
          | Inr parsedXml \<Rightarrow>
              (let testsuites = extractTestSuites parsedXml in
               if testsuites = [] then Inr []
               else Inr (fold (\<lambda>suite results.
                      fold (\<lambda>tc results'.
                              if tc_name tc = [] then results'
                              else storeResult (parseTestCase tc (ts_name suite)) results')
                           (ts_testcase suite) results)
                    testsuites []))))"

text \<open>
  \<^verbatim>\<open>parseJUnitXml\<close>: the \<^verbatim>\<open>catch\<close> clause logs the exception, and the
  results map is returned; nothing has been stored in it when reading or parsing throws.
\<close>

definition parseJUnitXml ::
  "(jsstring \<Rightarrow> js_error + parsed_xml) \<Rightarrow> report_source \<Rightarrow> JUnitTestResult jsmap" where
  "parseJUnitXml xml2js src =
     (case parseJUnitXmlTry xml2js src of Inl e \<Rightarrow> [] | Inr results \<Rightarrow> results)"


section \<open>Reconciliation with the report (reconcileWithXmlResults)\<close>

definition markFromXml :: "bool \<Rightarrow> TestItem \<Rightarrow> TestRun \<Rightarrow> TestRun" where
  "markFromXml xmlPassed testItem r = (if xmlPassed then passed testItem r else failed testItem r)"

definition reconcileEntry ::
  "JUnitTestResult jsmap \<Rightarrow> TestItem jsmap \<Rightarrow> jsstring \<times> JUnitTestResult \<Rightarrow> streaming \<Rightarrow> streaming" where
  "reconcileEntry xmlResults testNameMap entry st =
     (let testName = fst entry; xmlResult = snd entry in
      if toLowerCase testName \<noteq> testName \<and> mapHas xmlResults (toLowerCase testName) then st
      else case map_of testNameMap testName of
        None \<Rightarrow> st
      | Some testItem \<Rightarrow>
          (let xmlPassed = (jr_status xmlResult = StatusPassed);
               streamingPassed = (case map_of (testResults st) testName of
                                    Some res \<Rightarrow> fst res | None \<Rightarrow> True);
               st1 = (if xmlPassed \<noteq> streamingPassed
                      then st \<lparr> testRun := markFromXml xmlPassed testItem (testRun st) \<rparr>
                      else st)
           in if testName \<notin> seenTests st1
              then st1 \<lparr> testRun := markFromXml xmlPassed testItem (started testItem (testRun st1)),
                         seenTests := insert testName (seenTests st1) \<rparr>
              else st1))"

definition reconcileWithXmlResults ::
  "(jsstring \<Rightarrow> js_error + parsed_xml) \<Rightarrow> report_source \<Rightarrow> TestItem jsmap \<Rightarrow> streaming \<Rightarrow> streaming" where
  "reconcileWithXmlResults xml2js src testNameMap st =
     (if \<not> hostExists src then st
      else (let xmlResults = parseJUnitXml xml2js src in
            if xmlResults = [] then st
            else fold (reconcileEntry xmlResults testNameMap) xmlResults st))"

text \<open>
  The state that a report status stands for, and the entries that the loop skips as duplicates
  (a name that is not lower case while its lower-case form is a key as well).
\<close>

definition outcomeOf :: "bool \<Rightarrow> Outcome" where
  "outcomeOf xmlPassed = (if xmlPassed then Passed else Failed)"

definition skippedKey :: "JUnitTestResult jsmap \<Rightarrow> jsstring \<Rightarrow> bool" where
  "skippedKey xmlResults testName \<longleftrightarrow>
     toLowerCase testName \<noteq> testName \<and> mapHas xmlResults (toLowerCase testName)"

text \<open>
  \<^verbatim>\<open>onComplete\<close>: unseen tests are marked, the report is reconciled, and the item that
  was run gets its verdict. \<open>hasFatalError\<close> is the result of \<^verbatim>\<open>detectFatalError\<close> on
  the whole output.
\<close>

definition onComplete ::
  "(jsstring \<Rightarrow> js_error + parsed_xml) \<Rightarrow> report_source \<Rightarrow> TestItem \<Rightarrow> TestItem jsmap \<Rightarrow> int \<Rightarrow> bool
     \<Rightarrow> streaming \<Rightarrow> streaming" where
  "onComplete xml2js src test testNameMap exitCode hasFatalError st =
     (let st1 = st \<lparr> testRun := markUnseenTests testNameMap (seenTests st) (testRun st) \<rparr>;
          st2 = reconcileWithXmlResults xml2js src testNameMap st1;
          hasFailures = (exitCode \<noteq> 0 \<or> hasFatalError
                          \<or> list_ex (\<lambda>(k, res). \<not> fst res) (testResults st2))
      in st2 \<lparr> testRun := (if hasFailures then failed test else passed test) (testRun st2) \<rparr>)"

text \<open>
  The \<^verbatim>\<open>catch\<close> block of \<^verbatim>\<open>executeTestWithStreaming\<close>, entered when the
  executor rejects (time-out, termination of the process, spawn error).
\<close>

definition onRejected :: "bool \<Rightarrow> bool \<Rightarrow> TestItem \<Rightarrow> TestItem jsmap \<Rightarrow> streaming \<Rightarrow> streaming" where
  "onRejected isDockerError isCancellationRequested test testNameMap st =
     (if isDockerError then st \<lparr> testRun := failed test (testRun st) \<rparr>
      else if isCancellationRequested
        then st \<lparr> testRun := markUnseenTests testNameMap (seenTests st) (testRun st) \<rparr>
      else st \<lparr> testRun := failed test (testRun st) \<rparr>)"


section \<open>Marking from buffered output (parseAndMarkChildren)\<close>

text \<open>
  The results of the three readers of the buffered output are parameters:
  \<open>testResults\<close> is what \<^verbatim>\<open>parseTestResults\<close> returns, \<open>hasFatalError\<close> what
  \<^verbatim>\<open>detectFatalError\<close> returns and \<open>extracted\<close> what
  \<^verbatim>\<open>extractFatalErrorInfo\<close> returns (called only after a fatal error was detected).
\<close>

record FatalErrorInfo =
  fe_message :: jsstring
  fe_file :: "jsstring option"
  fe_line :: "nat option"

record marks =
  mRun :: TestRun
  foundAnyResults :: bool
  allChildrenPassed :: bool
  someChildrenFailed :: bool
  ranChildrenCount :: nat

record fileMarks =
  fileHadResults :: bool
  fileAllPassed :: bool
  fileSomeFailed :: bool
  fileRanCount :: nat

definition isFatalErrorFile :: "FatalErrorInfo \<Rightarrow> TestItem \<Rightarrow> bool" where
  "isFatalErrorFile info child =
     (case fsPath child of
        None \<Rightarrow> False
      | Some childFilePath \<Rightarrow>
          childFilePath \<noteq> [] \<and> jsIncludes childFilePath (strOrEmpty (fe_file info)))"

text \<open>The branch taken when execution stopped early: one step per child of the item run.\<close>

definition markFatalChild :: "FatalErrorInfo \<Rightarrow> TestItem \<Rightarrow> marks \<Rightarrow> marks" where
  "markFatalChild info child m =
     (if isFatalErrorFile info child \<and> children child \<noteq> [] then
        (let r1 = started child (mRun m);
             r2 = fold (\<lambda>methodTest r. failed methodTest (started methodTest r)) (children child) r1
         in m \<lparr> mRun := failed child r2, foundAnyResults := True, someChildrenFailed := True \<rparr>)
      else m)"

text \<open>Normal execution: one step per method of a file, and one step per child.\<close>

definition markMethod :: "(bool \<times> jsstring) jsmap \<Rightarrow> TestItem \<Rightarrow> marks \<times> fileMarks \<Rightarrow> marks \<times> fileMarks" where
  "markMethod results methodTest mf =
     (let m = fst mf; f = snd mf;
          r1 = started methodTest (mRun m);
          f1 = f \<lparr> fileHadResults := True, fileRanCount := fileRanCount f + 1 \<rparr>
      in case map_of results (extractMethodName (itemId methodTest)) of
           Some result \<Rightarrow>
             (let m1 = m \<lparr> foundAnyResults := True, ranChildrenCount := ranChildrenCount m + 1 \<rparr>
              in if fst result then (m1 \<lparr> mRun := passed methodTest r1 \<rparr>, f1)
                 else (m1 \<lparr> mRun := failed methodTest r1, allChildrenPassed := False,
                             someChildrenFailed := True \<rparr>,
                       f1 \<lparr> fileAllPassed := False, fileSomeFailed := True \<rparr>))
         | None \<Rightarrow>
             (m \<lparr> mRun := passed methodTest r1, ranChildrenCount := ranChildrenCount m + 1 \<rparr>, f1))"

definition newFileMarks :: fileMarks where
  "newFileMarks = \<lparr> fileHadResults = False, fileAllPassed = True, fileSomeFailed = False,
                    fileRanCount = 0 \<rparr>"

definition markChild :: "(bool \<times> jsstring) jsmap \<Rightarrow> TestItem \<Rightarrow> marks \<Rightarrow> marks" where
  "markChild results child m =
     (let m0 = m \<lparr> mRun := started child (mRun m) \<rparr> in
      if children child \<noteq> [] then
        (let mf = fold (markMethod results) (children child) (m0, newFileMarks);
             m1 = fst mf; f = snd mf
         in if fileHadResults f then
              (if fileSomeFailed f then m1 \<lparr> mRun := failed child (mRun m1) \<rparr>
               else if fileAllPassed f \<and> fileRanCount f = length (children child)
                 then m1 \<lparr> mRun := passed child (mRun m1) \<rparr>
               else m1)
            else m1)
      else
        (case map_of results (extractMethodName (itemId child)) of
           Some result \<Rightarrow>
             (let m1 = m0 \<lparr> foundAnyResults := True, ranChildrenCount := ranChildrenCount m0 + 1 \<rparr>
              in if fst result then m1 \<lparr> mRun := passed child (mRun m1) \<rparr>
                 else m1 \<lparr> mRun := failed child (mRun m1), allChildrenPassed := False,
                            someChildrenFailed := True \<rparr>)
         | None \<Rightarrow>
             m0 \<lparr> mRun := passed child (mRun m0), ranChildrenCount := ranChildrenCount m0 + 1 \<rparr>))"

definition newMarks :: "TestRun \<Rightarrow> marks" where
  "newMarks r = \<lparr> mRun = r, foundAnyResults = False, allChildrenPassed = True,
                  someChildrenFailed = False, ranChildrenCount = 0 \<rparr>"

definition totalChildren :: "TestItem \<Rightarrow> nat" where
  "totalChildren parentTest =
     fold (\<lambda>child count. count + (if children child \<noteq> [] then length (children child) else 1))
          (children parentTest) 0"

definition markParent :: "TestItem \<Rightarrow> bool \<Rightarrow> marks \<Rightarrow> TestRun" where
  "markParent parentTest hasFailures m =
     (if foundAnyResults m then
        (if someChildrenFailed m \<or> hasFailures then failed parentTest (mRun m)
         else if allChildrenPassed m then
           (if ranChildrenCount m = totalChildren parentTest then passed parentTest (mRun m)
            else mRun m)
         else mRun m)
      else mRun m)"

definition parseAndMarkChildren ::
  "TestItem \<Rightarrow> TestRun \<Rightarrow> (bool \<times> jsstring) jsmap \<Rightarrow> bool \<Rightarrow> FatalErrorInfo option \<Rightarrow> bool \<Rightarrow> TestRun" where
  "parseAndMarkChildren parentTest r results hasFatalError extracted hasFailures =
     (let fatalErrorInfo = (if hasFatalError then extracted else None);
          executionStoppedEarly = (hasFatalError \<and> results = [])
      in case (if executionStoppedEarly then fatalErrorInfo else None) of
           Some info \<Rightarrow>
             markParent parentTest hasFailures
               (fold (markFatalChild info) (children parentTest) (newMarks r))
         | None \<Rightarrow>
             markParent parentTest hasFailures
               (fold (markChild results) (children parentTest) (newMarks r)))"


section \<open>Leaves and identifiers of the tree that is run\<close>

text \<open>
  The leaves that \<open>totalChildren\<close> counts below the item that is run: the children of
  each child that has children, and each child that has none. \<open>nodeIds\<close> lists the ids of
  the item, its children and their children; the ids of a test tree are distinct.
\<close>

definition declaredLeaves :: "TestItem \<Rightarrow> TestItem list" where
  "declaredLeaves parentTest =
     concat (map (\<lambda>child. if children child \<noteq> [] then children child else [child])
                 (children parentTest))"

definition nodeIds :: "TestItem \<Rightarrow> jsstring list" where
  "nodeIds parentTest =
     itemId parentTest # concat (map (\<lambda>c. itemId c # map itemId (children c)) (children parentTest))"

text \<open>The ids that one step of the normal branch reports on, and a decided outcome.\<close>

definition touchedIds :: "TestItem \<Rightarrow> jsstring set" where
  "touchedIds c = insert (itemId c) (itemId ` set (children c))"

definition decided :: "Outcome \<Rightarrow> bool" where
  "decided out \<longleftrightarrow> out = Passed \<or> out = Failed"


section \<open>A small test tree\<close>

text \<open>
  A suite with two files. Both files declare a method \<open>testCreate\<close>; the first also
  declares \<open>testLogin\<close>.
\<close>

definition exCreateA :: TestItem where
  "exCreateA = TestItem (js ''u:A.php::testCreate'') (Some (js ''/w/A.php'')) []"

definition exLoginA :: TestItem where
  "exLoginA = TestItem (js ''u:A.php::testLogin'') (Some (js ''/w/A.php'')) []"

definition exCreateB :: TestItem where
  "exCreateB = TestItem (js ''u:B.php::testCreate'') (Some (js ''/w/B.php'')) []"

definition exFileA :: TestItem where
  "exFileA = TestItem (js ''u:A.php'') (Some (js ''/w/A.php'')) [exCreateA, exLoginA]"

definition exFileB :: TestItem where
  "exFileB = TestItem (js ''u:B.php'') (Some (js ''/w/B.php'')) [exCreateB]"

definition exSuite :: TestItem where
  "exSuite = TestItem (js ''u'') (Some (js ''/w'')) [exFileA, exFileB]"

text \<open>No report file on the host, and an XML reader that is never asked.\<close>

definition noReport :: report_source where
  "noReport = \<lparr> containerContent = None, hostExists = False, hostContent = Inl ReadError \<rparr>"

definition rejectingReader :: "jsstring \<Rightarrow> js_error + parsed_xml" where
  "rejectingReader text = Inl XmlError"

text \<open>The output line "(cross) testLogin" followed by a line feed, as one chunk.\<close>

definition crossLoginChunk :: jsstring where
  "crossLoginChunk = crossGlyph # js '' testLogin'' @ [10]"

text \<open>A report file that is present on the host with text that is not XML.\<close>

definition brokenReport :: report_source where
  "brokenReport = \<lparr> containerContent = None, hostExists = True,
                     hostContent = Inr (js ''<testsuites'') \<rparr>"

text \<open>A fatal error located in the first file.\<close>

definition fatalInA :: FatalErrorInfo where
  "fatalInA = \<lparr> fe_message = js ''Trait not found'', fe_file = Some (js ''/w/A.php''),
                 fe_line = Some 42 \<rparr>"


text \<open>
  A report with one test case, \<open>testLogin\<close>, without failure, error or skipped child, as
  the XML reader delivers it, and the streaming state after the line "(cross) testLogin".
\<close>

definition loginCase :: testcase where
  "loginCase = \<lparr> tc_name = js ''testLogin'', tc_classname = Some (js ''LoginTest''),
                  tc_class = None, tc_failure = None, tc_error = None, tc_skipped = None \<rparr>"

definition loginReport :: report_source where
  "loginReport = \<lparr> containerContent = None, hostExists = True,
                    hostContent = Inr (js ''<testsuites>'') \<rparr>"

definition loginReader :: "jsstring \<Rightarrow> js_error + parsed_xml" where
  "loginReader text =
     Inr \<lparr> wrappedSuites = Some [\<lparr> ts_name = Some (js ''unit''), ts_testcase = [loginCase] \<rparr>],
           directSuites = None \<rparr>"

definition loginResult :: JUnitTestResult where
  "loginResult = \<lparr> jr_name = js ''testLogin'', jr_className = Some (js ''LoginTest''),
                    jr_status = StatusPassed, jr_failure = None, jr_error = None \<rparr>"

definition afterCrossLogin :: streaming where
  "afterCrossLogin = deliver (buildTestNameMap exSuite)
                       (fst (processChunk crossLoginChunk initialExecutor)) (newStreaming newRun)"


section \<open>Line splitting across chunk boundaries\<close>

lemma splitNL_not_Nil: "splitNL s \<noteq> []"
  by (induction s) (auto split: list.splits)






section \<open>Chunk-boundary independence\<close>



section \<open>Evaluation of the examples\<close>

lemmas exItems = exCreateA_def exLoginA_def exCreateB_def exFileA_def exFileB_def exSuite_def

lemmas rxDefs = checkGlyph_def crossGlyph_def isWord_def isDigit_def isSpace_def toLowerUnit_def
  toUpperUnit_def toLowerCase_def toUpperCase_def trim_def anchored_def chr_def chr_i_def
  statusWords_def checkmarkRe_def colonRe_def verboseRe_def tapOkRe_def tapFailRe_def detailedRe_def
  isPassStatus_def parseLine_def

lemmas runDefs = newRun_def started_def passed_def failed_def skipped_def

lemma exNameMap:
  "buildTestNameMap exSuite =
     [(js ''testCreate'', exCreateB), (js ''testcreate'', exCreateB),
      (js ''Create'', exCreateB), (js ''create'', exCreateB),
      (js ''testLogin'', exLoginA), (js ''testlogin'', exLoginA),
      (js ''Login'', exLoginA), (js ''login'', exLoginA)]"
  by (simp add: extractMethodName_def registerNames_def buildTestNameMap_def toLowerCase_def
      toLowerUnit_def Let_def exItems)

lemma crossLogin_callbacks:
  "fst (processChunk crossLoginChunk initialExecutor)
     = [OnTestResult (js ''testLogin'') False (crossGlyph # js '' testLogin'')]"
  by (simp add: processChunk_def initialExecutor_def crossLoginChunk_def rxDefs)


section \<open>Unseen tests after a streamed run\<close>

text \<open>
  C2. The default-pass law asks that every method mentioned neither in the output nor in the
  report ends as Passed. \<open>markUnseenTests\<close> walks the name index, and the index holds one
  item per method name: in the example both files declare \<open>testCreate\<close>, the run prints
  nothing about either and leaves no report, and after \<open>onComplete\<close> the method of the
  second file is Passed while the method of the first file has no state at all.
\<close>

theorem unseen_method_shadowed_by_name:
  "testRun (onComplete rejectingReader noReport exSuite (buildTestNameMap exSuite) 0 False
              (newStreaming newRun)) (itemId exCreateA) = Unset
   \<and> testRun (onComplete rejectingReader noReport exSuite (buildTestNameMap exSuite) 0 False
              (newStreaming newRun)) (itemId exCreateB) = Passed"
  unfolding exNameMap
  by (simp add: onComplete_def markUnseenTests_def reconcileWithXmlResults_def noReport_def
      newStreaming_def runDefs exItems Let_def)


theorem unseen_method_shadowed_by_name_witness:
  "testRun (onComplete rejectingReader noReport exSuite (buildTestNameMap exSuite) 0 False
              (newStreaming newRun)) (itemId exCreateA) \<noteq> Passed"
  using unseen_method_shadowed_by_name by simp


section \<open>Cancellation\<close>

text \<open>
  C4. On cancellation the claim asks for Skipped on every item without a terminal state, and for
  terminal states to stay. The cancellation branch calls \<open>markUnseenTests\<close>: in the example
  the output reported \<open>testLogin\<close> as failed before the run was cancelled; afterwards
  \<open>testLogin\<close> is Passed (through its other names in the index) and the unseen
  \<open>testCreate\<close> is Passed, not Skipped.
\<close>

theorem cancellation_marks_passed:
  "testRun (deliver (buildTestNameMap exSuite) (fst (processChunk crossLoginChunk initialExecutor))
             (newStreaming newRun)) (itemId exLoginA) = Failed
   \<and> testRun (onRejected False True exSuite (buildTestNameMap exSuite)
               (deliver (buildTestNameMap exSuite)
                  (fst (processChunk crossLoginChunk initialExecutor)) (newStreaming newRun)))
        (itemId exLoginA) = Passed
   \<and> testRun (onRejected False True exSuite (buildTestNameMap exSuite)
               (deliver (buildTestNameMap exSuite)
                  (fst (processChunk crossLoginChunk initialExecutor)) (newStreaming newRun)))
        (itemId exCreateB) = Passed"
  unfolding exNameMap crossLogin_callbacks
  by (simp add: deliver_def onTestResult_def onRejected_def markUnseenTests_def newStreaming_def
      runDefs exItems)


section \<open>The line classifier\<close>

text \<open>One line of each pattern class, and a line of none.\<close>

lemma parseLine_examples:
  "parseLine (checkGlyph # js '' testLogin (LoginTest)'')
     = [OnTestResult (js ''testLogin'') True (checkGlyph # js '' testLogin (LoginTest)'')]"
  "parseLine (js ''testLogin: failed'') = [OnTestResult (js ''testLogin'') False (js ''testLogin: failed'')]"
  "parseLine (js ''testLogin (LoginTest) ... Passed'')
     = [OnTestResult (js ''testLogin'') True (js ''testLogin (LoginTest) ... Passed'')]"
  "parseLine (js ''ok 1 - testLogin'') = [OnTestResult (js ''testLogin'') True (js ''ok 1 - testLogin'')]"
  "parseLine (js ''not ok 2 - testLogout'')
     = [OnTestResult (js ''testLogout'') False (js ''not ok 2 - testLogout'')]"
  "parseLine (js ''Test  tests/unit/LoginTest.php:testLogin'')
     = [OnTestResult (js ''testLogin'') False (js ''Test  tests/unit/LoginTest.php:testLogin'')]"
  "parseLine (js ''Time: 00:00.012, Memory: 10.00 MB'') = []"
  by (simp_all add: rxDefs)

text \<open>
  A line that begins with a glyph, white space and a name: the name is extracted as it stands,
  and the outcome is whether the success glyph occurs anywhere in the line.
\<close>

lemma first_some_append:
  "first_some (xs @ ys) = (case first_some xs of Some y \<Rightarrow> Some y | None \<Rightarrow> first_some ys)"
  by (induction xs) (auto split: option.split)

lemma rests_blocked: "t = [] \<or> \<not> p (hd t) \<Longrightarrow> rests p t = [t]"
  by (cases t) auto

lemma first_some_rests_run:
  "list_all p xs \<Longrightarrow> t = [] \<or> \<not> p (hd t) \<Longrightarrow> f t = Some y
     \<Longrightarrow> first_some (map f (rests p (xs @ t))) = Some y"
  by (induction xs) (simp_all add: rests_blocked first_some_append)

lemma rmatch_Plus_run:
  assumes "xs \<noteq> []" and "list_all p xs" and "t = [] \<or> \<not> p (hd t)"
    and "rmatch r t g caps = Some y"
  shows "rmatch (Plus p # r) (xs @ t) g caps = Some y"
proof -
  obtain c cs where xs: "xs = c # cs" using assms(1) by (cases xs) auto
  then have "p c" and "list_all p cs" using assms(2) by simp_all
  then show ?thesis
    using first_some_rests_run [of p cs t "\<lambda>u. rmatch r u g caps" y] assms(3,4) xs by simp
qed

lemma jsIncludes_unit: "jsIncludes s [c] = (c \<in> set s)"
  by (induction s) auto

lemma word_not_space: "isWord c \<Longrightarrow> \<not> isSpace c"
  by (auto simp add: isWord_def isSpace_def)


lemma first_some_map_Some:
  "first_some (map f xs) = Some y \<Longrightarrow> \<exists>x \<in> set xs. f x = Some y"
  by (induction xs) (auto split: option.splits)

lemma rmatch_plain:
  "plain r \<Longrightarrow> rmatch r s g caps = Some y \<Longrightarrow> y = caps"
proof (induction r s g caps rule: rmatch.induct)
  case (1 s g caps)
  then show ?case by simp
next
  case (2 p r s g caps)
  then show ?case by (cases s) (auto split: if_splits)
next
  case (3 p r s g caps)
  from 3(3) obtain t where "t \<in> set (rests p s)" and "rmatch r t g caps = Some y"
    using first_some_map_Some [of "\<lambda>t. rmatch r t g caps" "rests p s" y] by auto
  then show ?case using 3 by simp
next
  case (4 p r s g caps)
  show ?case
  proof (cases s)
    case Nil
    then show ?thesis using 4 by simp
  next
    case (Cons c cs)
    then have pc: "p c" using 4(3) by (auto split: if_splits)
    then obtain t where "t \<in> set (rests p cs)" and "rmatch r t g caps = Some y"
      using first_some_map_Some [of "\<lambda>t. rmatch r t g caps" "rests p cs" y] 4(3) Cons by auto
    then show ?thesis using 4(1) [OF Cons pc] 4(2) by simp
  qed
next
  case (5 ws r s g caps)
  from 5(3) obtain w where w: "w \<in> set ws"
    and m: "(case strip_ci w s of None \<Rightarrow> None | Some t \<Rightarrow> rmatch r t g caps) = Some y"
    using first_some_map_Some
      [of "\<lambda>w. case strip_ci w s of None \<Rightarrow> None | Some t \<Rightarrow> rmatch r t g caps" ws y]
    by auto
  then obtain t where "strip_ci w s = Some t" and "rmatch r t g caps = Some y"
    by (cases "strip_ci w s") auto
  then show ?case using 5(1) [OF w] 5(2) by simp
next
  case (6 xs r s g caps)
  then show ?case by simp
next
  case (7 r s g caps)
  then show ?case by simp
next
  case (8 r s g caps)
  then show ?case by simp
qed

lemma rmatch_Optional_plain:
  "plain xs \<Longrightarrow> rmatch [Optional xs] s g caps = Some caps"
  using rmatch_plain [of "xs @ []" s g caps]
  by (cases "rmatch (xs @ []) s g caps") auto

lemma glyph_match:
  assumes "g = checkGlyph \<or> g = crossGlyph"
    and "ws \<noteq> []" and "list_all isSpace ws"
    and "ident \<noteq> []" and "list_all isWord ident"
    and "rest = [] \<or> \<not> isWord (hd rest)"
  shows "rmatch checkmarkRe (g # ws @ ident @ rest) None [] = Some [ident]"
proof -
  let ?opt = "Optional [Plus isSpace, chr CHR ''('', Plus (\<lambda>c. c \<noteq> of_char CHR '')''), chr CHR '')'']"
  have o: "rmatch [?opt] rest None [ident] = Some [ident]"
    by (rule rmatch_Optional_plain) (simp add: chr_def)
  have w: "rmatch [Plus isWord, GClose, ?opt] (ident @ rest) (Some (ident @ rest)) [] = Some [ident]"
    by (rule rmatch_Plus_run [OF assms(4,5,6)]) (use o in \<open>simp del: rmatch.simps(6)\<close>)
  have b: "ident @ rest = [] \<or> \<not> isSpace (hd (ident @ rest))"
    using assms(4,5) by (cases ident) (auto simp add: word_not_space)
  have "rmatch [Plus isSpace, GOpen, Plus isWord, GClose, ?opt] (ws @ ident @ rest) None []
      = Some [ident]"
    by (rule rmatch_Plus_run [OF assms(2,3) b]) (simp only: rmatch.simps(7) w)
  then show ?thesis using assms(1)
    by (simp add: checkmarkRe_def del: rmatch.simps(4) rmatch.simps(6) rmatch.simps(7))
qed

lemma glyph_line_classified:
  assumes "g = checkGlyph \<or> g = crossGlyph"
    and "ws \<noteq> []" and "list_all isSpace ws"
    and "ident \<noteq> []" and "list_all isWord ident"
    and "rest = [] \<or> \<not> isWord (hd rest)"
  shows "parseLine (g # ws @ ident @ rest)
     = [OnTestResult ident (checkGlyph \<in> set (g # ws @ ident @ rest)) (g # ws @ ident @ rest)]"
  using glyph_match [OF assms]
  by (simp add: parseLine_def jsIncludes_unit)

text \<open>
  C7. The pattern contract asks that a glyph-marked line is passed exactly when its glyph is the
  success glyph. \<open>parseLine\<close> takes the name from the match and the outcome from
  \<^verbatim>\<open>line.includes\<close> of the success glyph: the line "(cross) testA (check)" is
  matched at the failure glyph, with the name \<open>testA\<close>, and reported as passed.
\<close>

theorem cross_line_reported_passed:
  "parseLine (crossGlyph # js '' testA '' @ [checkGlyph])
     = [OnTestResult (js ''testA'') True (crossGlyph # js '' testA '' @ [checkGlyph])]"
  by (simp add: rxDefs)


section \<open>One line buffer for both channels\<close>

text \<open>
  C8, as claimed: a fragment left by standard output is never joined with data from standard
  error. It is: after "testA: O" on standard output, "K" and a line feed on standard error
  complete the line "testA: OK", which is classified.
\<close>

theorem stderr_completes_stdout_line:
  "fst (stderrData (js ''K'' @ [10]) (snd (stdoutData (js ''testA: O'') initialExecutor)))
     = [OnOutput (js ''K'' @ [10]), OnTestResult (js ''testA'') True (js ''testA: OK'')]"
  by (simp add: stderrData_def stdoutData_def processChunk_def initialExecutor_def rxDefs)

text \<open>
  C8, amended. The executor has one line buffer, shared by the two channels: a chunk on either
  channel is appended to it and split in the same way, with the same callbacks and the same
  buffer left over. Data from standard error is in addition collected in \<open>stderrBuffer\<close>,
  which a chunk from standard output does not change.
\<close>

theorem shared_line_buffer:
  "fst (stderrData d ex) = fst (stdoutData d ex)
   \<and> lineBuffer (snd (stderrData d ex)) = lineBuffer (snd (stdoutData d ex))
   \<and> lineBuffer (snd (stdoutData d ex)) = last (splitNL (lineBuffer ex @ d))
   \<and> stderrBuffer (snd (stdoutData d ex)) = stderrBuffer ex
   \<and> stderrBuffer (snd (stderrData d ex)) = stderrBuffer ex @ d"
  by (simp add: stderrData_def stdoutData_def processChunk_def Let_def splitNL_not_Nil)


section \<open>Status of a report entry\<close>

text \<open>
  C10. The claim asks for the status skipped whenever the test case has a skipped child. The
  checks of \<open>parseTestCase\<close> test the child for truthiness, and an empty child element
  reaches it as the empty string: a test case whose only child is an empty skipped element gets
  the status passed.
\<close>

theorem empty_skipped_child_is_passed:
  "jr_status (parseTestCase \<lparr> tc_name = js ''testLogin'', tc_classname = None, tc_class = None,
       tc_failure = None, tc_error = None, tc_skipped = Some (Text []) \<rparr> None) = StatusPassed"
  by (simp add: parseTestCase_def Let_def)


section \<open>Reconciliation without a usable report\<close>

text \<open>
  C9. When the report file is absent, or reading or parsing it throws, or it holds no test
  case, \<open>reconcileWithXmlResults\<close> returns normally with the state it was given: the run, the set of seen names and the streaming
  results are unchanged.
\<close>

theorem reconcile_fail_closed:
  "\<not> hostExists src \<or> (\<exists>e. parseJUnitXmlTry xml2js src = Inl e)
       \<or> parseJUnitXmlTry xml2js src = Inr []
     \<Longrightarrow> reconcileWithXmlResults xml2js src testNameMap st = st"
  by (auto simp add: reconcileWithXmlResults_def parseJUnitXml_def)

theorem reconcile_fail_closed_witness:
  "\<not> hostExists noReport
   \<and> reconcileWithXmlResults rejectingReader noReport (buildTestNameMap exSuite)
        (newStreaming newRun) = newStreaming newRun
   \<and> parseJUnitXmlTry rejectingReader brokenReport = Inl XmlError
   \<and> reconcileWithXmlResults rejectingReader brokenReport (buildTestNameMap exSuite)
        (newStreaming newRun) = newStreaming newRun"
proof -
  have a: "\<not> hostExists noReport" by (simp add: noReport_def)
  have b: "parseJUnitXmlTry rejectingReader brokenReport = Inl XmlError"
    by (simp add: parseJUnitXmlTry_def brokenReport_def rejectingReader_def strOrEmpty_def
        trim_def isSpace_def)
  from a have a': "\<not> hostExists noReport \<or> (\<exists>e. parseJUnitXmlTry rejectingReader noReport = Inl e)
      \<or> parseJUnitXmlTry rejectingReader noReport = Inr []"
    by simp
  from b have b': "\<not> hostExists brokenReport
      \<or> (\<exists>e. parseJUnitXmlTry rejectingReader brokenReport = Inl e)
      \<or> parseJUnitXmlTry rejectingReader brokenReport = Inr []"
    by simp
  show ?thesis
    using a b reconcile_fail_closed [OF a'] reconcile_fail_closed [OF b'] by simp
qed


section \<open>Marking after an early abort\<close>

lemma fail_methods_fold:
  "fold (\<lambda>methodTest r. r (itemId methodTest := Failed)) ms r0 x
     = (if x \<in> itemId ` set ms then Failed else r0 x)"
  by (induction ms arbitrary: r0) auto

lemma markFatalChild_run:
  "mRun (markFatalChild info c m) x
     = (if isFatalErrorFile info c \<and> children c \<noteq> []
           \<and> (x = itemId c \<or> x \<in> itemId ` set (children c))
        then Failed else mRun m x)"
  by (auto simp add: markFatalChild_def Let_def fail_methods_fold failed_def started_def
      simp del: image_iff)

lemma markFatalChild_found:
  "foundAnyResults (markFatalChild info c m)
     = (foundAnyResults m \<or> (isFatalErrorFile info c \<and> children c \<noteq> []))"
  "someChildrenFailed (markFatalChild info c m)
     = (someChildrenFailed m \<or> (isFatalErrorFile info c \<and> children c \<noteq> []))"
  by (auto simp add: markFatalChild_def Let_def)

lemma markFatal_fold_run:
  "mRun (fold (markFatalChild info) cs m) x
     = (if \<exists>c \<in> set cs. isFatalErrorFile info c \<and> children c \<noteq> []
                \<and> (x = itemId c \<or> x \<in> itemId ` set (children c))
        then Failed else mRun m x)"
proof (induction cs arbitrary: m)
  case Nil
  show ?case by simp
next
  case (Cons c cs)
  show ?case
    by (simp add: Cons.IH markFatalChild_run del: image_iff) blast
qed

lemma markFatal_fold_found:
  "foundAnyResults (fold (markFatalChild info) cs m)
     = (foundAnyResults m \<or> (\<exists>c \<in> set cs. isFatalErrorFile info c \<and> children c \<noteq> []))"
  "someChildrenFailed (fold (markFatalChild info) cs m)
     = (someChildrenFailed m \<or> (\<exists>c \<in> set cs. isFatalErrorFile info c \<and> children c \<noteq> []))"
  by (induction cs arbitrary: m) (auto simp add: markFatalChild_found)

lemma early_abort_run:
  assumes "hasFatalError" and "results = []" and "extracted = Some info"
  shows "parseAndMarkChildren parentTest r results hasFatalError extracted hasFailures x
     = (if (\<exists>c \<in> set (children parentTest). isFatalErrorFile info c \<and> children c \<noteq> []
               \<and> (x = itemId c \<or> x \<in> itemId ` set (children c)))
           \<or> (x = itemId parentTest
               \<and> (\<exists>c \<in> set (children parentTest). isFatalErrorFile info c \<and> children c \<noteq> []))
        then Failed else r x)"
  using assms
  by (auto simp add: parseAndMarkChildren_def markParent_def markFatal_fold_run
      markFatal_fold_found newMarks_def failed_def simp del: image_iff)



text \<open>
  C3, as claimed: after a fatal error with no parsed result only the matching file and its
  methods change state, and every suite keeps its state. The suite that was run does not: in
  the example the fatal error lies in the first file, and the suite, which had no state, is
  marked Failed.
\<close>

theorem early_abort_marks_suite:
  "newRun (itemId exSuite) = Unset
   \<and> parseAndMarkChildren exSuite newRun [] True (Some fatalInA) False (itemId exSuite) = Failed"
  by (simp add: parseAndMarkChildren_def markParent_def markFatalChild_def isFatalErrorFile_def
      newMarks_def fatalInA_def strOrEmpty_def runDefs exItems Let_def)

text \<open>
  C3, amended. When a fatal error is detected, no result was parsed and the error names a file,
  \<open>parseAndMarkChildren\<close> marks as Failed every child of the item run whose path contains
  the file of the error and that has methods, every method of such a child, and, when there is
  such a child, the item that was run itself; every other item keeps the state it had.
\<close>

theorem early_abort_scope:
  assumes "hasFatalError" and "results = []" and "extracted = Some info"
    and "fe_file info = Some file"
  shows "parseAndMarkChildren parentTest r results hasFatalError extracted hasFailures x
     = (if (\<exists>c \<in> set (children parentTest). isFatalErrorFile info c \<and> children c \<noteq> []
               \<and> (x = itemId c \<or> x \<in> itemId ` set (children c)))
           \<or> (x = itemId parentTest
               \<and> (\<exists>c \<in> set (children parentTest). isFatalErrorFile info c \<and> children c \<noteq> []))
        then Failed else r x)"
  using assms(1,2,3) by (rule early_abort_run)

theorem early_abort_scope_witness:
  "fe_file fatalInA = Some (js ''/w/A.php'')
   \<and> parseAndMarkChildren exSuite newRun [] True (Some fatalInA) False (itemId exFileA) = Failed
   \<and> parseAndMarkChildren exSuite newRun [] True (Some fatalInA) False (itemId exLoginA) = Failed
   \<and> parseAndMarkChildren exSuite newRun [] True (Some fatalInA) False (itemId exSuite) = Failed
   \<and> parseAndMarkChildren exSuite newRun [] True (Some fatalInA) False (itemId exFileB)
        = newRun (itemId exFileB)
   \<and> parseAndMarkChildren exSuite newRun [] True (Some fatalInA) False (itemId exCreateB)
        = newRun (itemId exCreateB)"
proof -
  have f: "fe_file fatalInA = Some (js ''/w/A.php'')" by (simp add: fatalInA_def)
  have t: "True" and e: "([] :: (bool \<times> jsstring) jsmap) = []"
    and s: "Some fatalInA = Some fatalInA" by simp_all
  note th = early_abort_scope [OF t e s f, of exSuite newRun False]
  show ?thesis
    unfolding th by (simp add: isFatalErrorFile_def fatalInA_def strOrEmpty_def exItems newRun_def)
qed


section \<open>Marking in the normal branch\<close>

lemma markMethod_other:
  "x \<noteq> itemId mt \<Longrightarrow> mRun (fst (markMethod results mt mf)) x = mRun (fst mf) x"
  by (simp add: markMethod_def Let_def passed_def failed_def started_def split: option.split)

lemma markMethod_self:
  "decided (mRun (fst (markMethod results mt mf)) (itemId mt))"
  by (simp add: markMethod_def Let_def passed_def failed_def started_def decided_def
      split: option.split)

lemma markMethod_file:
  "fileHadResults (snd (markMethod results mt mf))"
  "fileRanCount (snd (markMethod results mt mf)) = fileRanCount (snd mf) + 1"
  "(fileAllPassed (snd mf) \<longleftrightarrow> \<not> fileSomeFailed (snd mf))
     \<Longrightarrow> (fileAllPassed (snd (markMethod results mt mf))
            \<longleftrightarrow> \<not> fileSomeFailed (snd (markMethod results mt mf)))"
  by (simp_all add: markMethod_def Let_def split: option.split)

lemma markMethod_fold_other:
  "x \<notin> itemId ` set ms \<Longrightarrow> mRun (fst (fold (markMethod results) ms mf)) x = mRun (fst mf) x"
proof (induction ms arbitrary: mf)
  case Nil
  show ?case by simp
next
  case (Cons mt ms)
  from Cons.prems have a: "x \<noteq> itemId mt" and b: "x \<notin> itemId ` set ms" by auto
  show ?case using Cons.IH [OF b, of "markMethod results mt mf"] markMethod_other [OF a]
    by simp
qed

lemma markMethod_fold_decided:
  "x \<in> itemId ` set ms \<Longrightarrow> decided (mRun (fst (fold (markMethod results) ms mf)) x)"
proof (induction ms arbitrary: mf)
  case Nil
  then show ?case by simp
next
  case (Cons mt ms)
  show ?case
  proof (cases "x \<in> itemId ` set ms")
    case True
    then show ?thesis using Cons.IH by simp
  next
    case False
    then have "x = itemId mt" using Cons.prems by auto
    moreover have "mRun (fst (fold (markMethod results) ms (markMethod results mt mf))) x
        = mRun (fst (markMethod results mt mf)) x"
      using False markMethod_fold_other by simp
    ultimately show ?thesis using markMethod_self [of results mt mf] by simp
  qed
qed

lemma markMethod_fold_file:
  "fileRanCount (snd (fold (markMethod results) ms mf)) = fileRanCount (snd mf) + length ms"
  "ms \<noteq> [] \<Longrightarrow> fileHadResults (snd (fold (markMethod results) ms mf))"
  "(fileAllPassed (snd mf) \<longleftrightarrow> \<not> fileSomeFailed (snd mf))
     \<Longrightarrow> (fileAllPassed (snd (fold (markMethod results) ms mf))
            \<longleftrightarrow> \<not> fileSomeFailed (snd (fold (markMethod results) ms mf)))"
proof (induction ms arbitrary: mf)
  case Nil
  { case 1 show ?case by simp }
  { case 2 then show ?case by simp }
  { case 3 then show ?case by simp }
next
  case (Cons mt ms)
  { case 1 show ?case by (simp add: Cons.IH(1) markMethod_file(2)) }
  { case 2 show ?case
    proof (cases "ms = []")
      case True then show ?thesis by (simp add: markMethod_file(1))
    next
      case False then show ?thesis using Cons.IH(2) by simp
    qed }
  { case 3 then show ?case using Cons.IH(3) markMethod_file(3) by simp }
qed


lemma markChild_other:
  assumes "x \<notin> touchedIds c"
  shows "mRun (markChild results c m) x = mRun m x"
proof -
  from assms have a: "x \<noteq> itemId c" and b: "x \<notin> itemId ` set (children c)"
    by (auto simp add: touchedIds_def)
  have "mRun (fst (fold (markMethod results) (children c)
                 (m \<lparr> mRun := started c (mRun m) \<rparr>, newFileMarks))) x = mRun m x"
    using markMethod_fold_other [OF b] a by (simp add: started_def)
  then show ?thesis using a
    by (simp add: markChild_def Let_def passed_def failed_def started_def split: option.split)
qed

lemma markChild_touched:
  assumes "x \<in> touchedIds c"
  shows "decided (mRun (markChild results c m) x)"
proof (cases "children c = []")
  case True
  then have "x = itemId c" using assms by (simp add: touchedIds_def)
  then show ?thesis using True
    by (simp add: markChild_def Let_def passed_def failed_def started_def decided_def
        split: option.split)
next
  case False
  let ?mf = "fold (markMethod results) (children c)
               (m \<lparr> mRun := started c (mRun m) \<rparr>, newFileMarks)"
  have h: "fileHadResults (snd ?mf)" using False by (rule markMethod_fold_file(2))
  have n: "fileRanCount (snd ?mf) = length (children c)"
    by (simp add: markMethod_fold_file(1) newFileMarks_def)
  have i: "fileAllPassed (snd ?mf) \<longleftrightarrow> \<not> fileSomeFailed (snd ?mf)"
    by (rule markMethod_fold_file(3)) (simp add: newFileMarks_def)
  have res: "mRun (markChild results c m)
      = (if fileSomeFailed (snd ?mf) then failed c (mRun (fst ?mf)) else passed c (mRun (fst ?mf)))"
    using False h n i by (simp add: markChild_def Let_def)
  show ?thesis
  proof (cases "x = itemId c")
    case True
    then show ?thesis by (simp add: res passed_def failed_def decided_def)
  next
    case ne: False
    then have "x \<in> itemId ` set (children c)" using assms by (simp add: touchedIds_def)
    then have "decided (mRun (fst ?mf) x)" by (rule markMethod_fold_decided)
    then show ?thesis using ne by (simp add: res passed_def failed_def)
  qed
qed

lemma markChild_fold_other:
  "x \<notin> \<Union> (touchedIds ` set cs) \<Longrightarrow> mRun (fold (markChild results) cs m) x = mRun m x"
proof (induction cs arbitrary: m)
  case Nil
  show ?case by simp
next
  case (Cons c cs)
  from Cons.prems have a: "x \<notin> touchedIds c" and b: "x \<notin> \<Union> (touchedIds ` set cs)" by auto
  show ?case using Cons.IH [OF b, of "markChild results c m"] markChild_other [OF a] by simp
qed

lemma markChild_fold_decided:
  "x \<in> \<Union> (touchedIds ` set cs) \<Longrightarrow> decided (mRun (fold (markChild results) cs m) x)"
proof (induction cs arbitrary: m)
  case Nil
  then show ?case by simp
next
  case (Cons c cs)
  show ?case
  proof (cases "x \<in> \<Union> (touchedIds ` set cs)")
    case True
    then show ?thesis using Cons.IH by simp
  next
    case False
    then have "x \<in> touchedIds c" using Cons.prems by auto
    then have "decided (mRun (markChild results c m) x)" by (rule markChild_touched)
    then show ?thesis using markChild_fold_other [OF False] by simp
  qed
qed

lemma markParent_decided:
  "decided (mRun m x) \<Longrightarrow> decided (markParent parentTest hasFailures m x)"
  by (auto simp add: markParent_def passed_def failed_def decided_def)

lemma normal_run_decided:
  assumes "\<not> (hasFatalError \<and> results = [] \<and> extracted \<noteq> None)"
    and "x \<in> \<Union> (touchedIds ` set (children parentTest))"
  shows "decided (parseAndMarkChildren parentTest r results hasFatalError extracted hasFailures x)"
proof -
  have "parseAndMarkChildren parentTest r results hasFatalError extracted hasFailures
      = markParent parentTest hasFailures
          (fold (markChild results) (children parentTest) (newMarks r))"
    using assms(1) by (auto simp add: parseAndMarkChildren_def Let_def split: option.split)
  then show ?thesis using markChild_fold_decided [OF assms(2)] markParent_decided by simp
qed

lemma declaredLeaves_touched:
  "l \<in> set (declaredLeaves parentTest)
     \<Longrightarrow> itemId l \<in> \<Union> (touchedIds ` set (children parentTest))"
  by (auto simp add: declaredLeaves_def touchedIds_def split: if_splits)

lemma child_leaf_touched:
  "c \<in> set (children parentTest) \<Longrightarrow> l \<in> set (children c)
     \<Longrightarrow> itemId l \<in> \<Union> (touchedIds ` set (children parentTest))"
  by (auto simp add: touchedIds_def)

lemma decided_terminal: "decided out \<Longrightarrow> terminal out"
  by (auto simp add: decided_def terminal_def)

lemma nodeIds_parent:
  "distinct (nodeIds p) \<Longrightarrow> c \<in> set (children p) \<Longrightarrow> itemId c \<noteq> itemId p"
  by (auto simp add: nodeIds_def)

lemma concat_map_disjoint:
  "distinct (concat (map f cs)) \<Longrightarrow> c \<in> set cs \<Longrightarrow> c' \<in> set cs \<Longrightarrow> c \<noteq> c'
     \<Longrightarrow> set (f c) \<inter> set (f c') = {}"
proof (induction cs)
  case Nil
  then show ?case by simp
next
  case (Cons a as)
  from Cons.prems(1) have d: "distinct (concat (map f as))"
    and dj: "set (f a) \<inter> \<Union> (set ` f ` set as) = {}" by auto
  show ?case
  proof (cases "c = a")
    case True
    then have "c' \<in> set as" using Cons.prems by auto
    then show ?thesis using dj True by auto
  next
    case ca: False
    show ?thesis
    proof (cases "c' = a")
      case True
      then have "c \<in> set as" using Cons.prems by auto
      then show ?thesis using dj True by auto
    next
      case False
      then show ?thesis using ca Cons.IH [OF d] Cons.prems by auto
    qed
  qed
qed

lemma nodeIds_children:
  assumes "distinct (nodeIds p)" and "c \<in> set (children p)" and "c' \<in> set (children p)"
    and "c \<noteq> c'"
  shows "itemId c \<notin> touchedIds c'"
proof -
  let ?f = "\<lambda>c. itemId c # map itemId (children c)"
  from assms(1) have "distinct (concat (map ?f (children p)))" by (simp add: nodeIds_def)
  from concat_map_disjoint [OF this assms(2,3,4)]
  have "set (?f c) \<inter> set (?f c') = {}" .
  then show ?thesis by (auto simp add: touchedIds_def)
qed


section \<open>The partial-run law\<close>

text \<open>
  C5. Let \<open>parseAndMarkChildren\<close> run on a tree with distinct ids. If the item that was run
  has a leaf without terminal outcome afterwards and no leaf that is Failed, the item keeps the
  state it had before: it gets no verdict, and is not marked Passed. The same holds for every
  child that has methods, with its methods as leaves.
\<close>

theorem partial_run_law:
  assumes "distinct (nodeIds parentTest)"
  shows "let r' = parseAndMarkChildren parentTest r results hasFatalError extracted hasFailures in
      ((\<exists>l \<in> set (declaredLeaves parentTest). \<not> terminal (r' (itemId l)))
         \<and> (\<forall>l \<in> set (declaredLeaves parentTest). r' (itemId l) \<noteq> Failed)
         \<longrightarrow> r' (itemId parentTest) = r (itemId parentTest))
      \<and> (\<forall>c \<in> set (children parentTest).
            children c \<noteq> []
            \<and> (\<exists>l \<in> set (children c). \<not> terminal (r' (itemId l)))
            \<and> (\<forall>l \<in> set (children c). r' (itemId l) \<noteq> Failed)
            \<longrightarrow> r' (itemId c) = r (itemId c))"
proof (cases "hasFatalError \<and> results = [] \<and> extracted \<noteq> None")
  case False
  let ?r' = "parseAndMarkChildren parentTest r results hasFatalError extracted hasFailures"
  have a: "terminal (?r' (itemId l))" if "l \<in> set (declaredLeaves parentTest)" for l
    by (rule decided_terminal, rule normal_run_decided [OF False],
        rule declaredLeaves_touched [OF that])
  have b: "terminal (?r' (itemId l))"
    if "c \<in> set (children parentTest)" and "l \<in> set (children c)" for c l
    by (rule decided_terminal, rule normal_run_decided [OF False],
        rule child_leaf_touched [OF that])
  show ?thesis unfolding Let_def
  proof (intro conjI impI ballI)
    assume "(\<exists>l \<in> set (declaredLeaves parentTest). \<not> terminal (?r' (itemId l)))
         \<and> (\<forall>l \<in> set (declaredLeaves parentTest). ?r' (itemId l) \<noteq> Failed)"
    then show "?r' (itemId parentTest) = r (itemId parentTest)" using a by blast
  next
    fix c
    assume "c \<in> set (children parentTest)"
      and "children c \<noteq> []
            \<and> (\<exists>l \<in> set (children c). \<not> terminal (?r' (itemId l)))
            \<and> (\<forall>l \<in> set (children c). ?r' (itemId l) \<noteq> Failed)"
    then show "?r' (itemId c) = r (itemId c)" using b by blast
  qed
next
  case True
  then obtain info where ea: "hasFatalError" "results = []" "extracted = Some info" by auto
  let ?r' = "parseAndMarkChildren parentTest r results hasFatalError extracted hasFailures"
  let ?M = "\<lambda>c. isFatalErrorFile info c \<and> children c \<noteq> []"
  note run = early_abort_run [OF ea, of parentTest r hasFailures]
  have marked: "?r' (itemId l) = Failed"
    if "c \<in> set (children parentTest)" and "?M c" and "l \<in> set (children c)" for c l
  proof -
    have "\<exists>c \<in> set (children parentTest). ?M c
            \<and> (itemId l = itemId c \<or> itemId l \<in> itemId ` set (children c))"
      using that by blast
    then show ?thesis by (subst run) (rule if_P, blast)
  qed
  have parent: "?r' (itemId parentTest) = r (itemId parentTest)"
    if some: "\<exists>l \<in> set (declaredLeaves parentTest). \<not> terminal (?r' (itemId l))"
      and none: "\<forall>l \<in> set (declaredLeaves parentTest). ?r' (itemId l) \<noteq> Failed"
  proof -
    have no: "\<not> (\<exists>c \<in> set (children parentTest). ?M c)"
    proof
      assume "\<exists>c \<in> set (children parentTest). ?M c"
      then obtain c where c: "c \<in> set (children parentTest)" "?M c" by blast
      then obtain l where l: "l \<in> set (children c)" by (cases "children c") auto
      have "l \<in> set (declaredLeaves parentTest)"
        using c l by (auto simp add: declaredLeaves_def)
      moreover have "?r' (itemId l) = Failed" using marked [OF c l] .
      ultimately show False using none by blast
    qed
    show ?thesis by (subst run) (rule if_not_P, use no in blast)
  qed
  have child: "?r' (itemId c) = r (itemId c)"
    if c: "c \<in> set (children parentTest)" and ne: "children c \<noteq> []"
      and nf: "\<forall>l \<in> set (children c). ?r' (itemId l) \<noteq> Failed" for c
  proof -
    obtain l where l: "l \<in> set (children c)" using ne by (cases "children c") auto
    have nm: "\<not> ?M c"
    proof
      assume "?M c"
      from marked [OF c this l] nf l show False by blast
    qed
    have p: "itemId c \<noteq> itemId parentTest" using nodeIds_parent [OF assms c] .
    have o: "\<not> (\<exists>c' \<in> set (children parentTest). ?M c'
                 \<and> (itemId c = itemId c' \<or> itemId c \<in> itemId ` set (children c')))"
    proof
      assume "\<exists>c' \<in> set (children parentTest). ?M c'
                 \<and> (itemId c = itemId c' \<or> itemId c \<in> itemId ` set (children c'))"
      then obtain c' where c': "c' \<in> set (children parentTest)" "?M c'"
        and t: "itemId c \<in> touchedIds c'"
        unfolding touchedIds_def by blast
      from c' nm have "c \<noteq> c'" by blast
      from nodeIds_children [OF assms c c'(1) this] t show False by simp
    qed
    show ?thesis by (subst run) (rule if_not_P, use p o in blast)
  qed
  show ?thesis unfolding Let_def
  proof (intro conjI impI ballI)
    assume "(\<exists>l \<in> set (declaredLeaves parentTest). \<not> terminal (?r' (itemId l)))
         \<and> (\<forall>l \<in> set (declaredLeaves parentTest). ?r' (itemId l) \<noteq> Failed)"
    then show "?r' (itemId parentTest) = r (itemId parentTest)" using parent by blast
  next
    fix c
    assume "c \<in> set (children parentTest)"
      and "children c \<noteq> []
            \<and> (\<exists>l \<in> set (children c). \<not> terminal (?r' (itemId l)))
            \<and> (\<forall>l \<in> set (children c). ?r' (itemId l) \<noteq> Failed)"
    then show "?r' (itemId c) = r (itemId c)" using child by blast
  qed
qed

theorem partial_run_law_witness:
  "distinct (nodeIds exSuite)
   \<and> exFileB \<in> set (children exSuite) \<and> children exFileB = [exCreateB]
   \<and> \<not> terminal (parseAndMarkChildren exSuite newRun [] True (Some fatalInA) False (itemId exCreateB))
   \<and> parseAndMarkChildren exSuite newRun [] True (Some fatalInA) False (itemId exCreateB) \<noteq> Failed
   \<and> parseAndMarkChildren exSuite newRun [] True (Some fatalInA) False (itemId exFileB) = Unset"
proof -
  have d: "distinct (nodeIds exSuite)" by (simp add: nodeIds_def exItems)
  have c: "exFileB \<in> set (children exSuite)" and k: "children exFileB = [exCreateB]"
    by (simp_all add: exItems)
  have t: "True" and e: "([] :: (bool \<times> jsstring) jsmap) = []"
    and s: "Some fatalInA = Some fatalInA" by simp_all
  have l: "parseAndMarkChildren exSuite newRun [] True (Some fatalInA) False (itemId exCreateB) = Unset"
    unfolding early_abort_run [OF t e s]
    by (simp add: isFatalErrorFile_def fatalInA_def strOrEmpty_def exItems newRun_def)
  note inst = partial_run_law [OF d, of newRun "[]" True "Some fatalInA" False,
      unfolded Let_def, THEN conjunct2, THEN bspec, OF c]
  from inst have u: "parseAndMarkChildren exSuite newRun [] True (Some fatalInA) False (itemId exFileB)
      = newRun (itemId exFileB)"
    by (simp add: k l terminal_def)
  show ?thesis using d c k l u by (simp add: terminal_def newRun_def)
qed


section \<open>Reconciliation with a report\<close>

lemma reconcileEntry_results:
  "testResults (reconcileEntry X nm e st) = testResults st"
  by (simp add: reconcileEntry_def Let_def split: option.split)

lemma reconcileEntry_seen:
  "seenTests (reconcileEntry X nm e st) \<subseteq> insert (fst e) (seenTests st)"
  by (auto simp add: reconcileEntry_def Let_def split: option.split)

lemma reconcileEntry_other:
  assumes "\<forall>t. map_of nm (fst e) = Some t \<longrightarrow> itemId t \<noteq> i"
  shows "testRun (reconcileEntry X nm e st) i = testRun st i"
  using assms
  by (auto simp add: reconcileEntry_def Let_def markFromXml_def passed_def failed_def started_def
      split: option.split)

lemma reconcileEntry_skipped:
  "skippedKey X (fst e) \<Longrightarrow> reconcileEntry X nm e st = st"
  by (simp add: reconcileEntry_def skippedKey_def Let_def)

lemma reconcileEntry_marks:
  assumes "\<not> skippedKey X (fst e)" and "map_of nm (fst e) = Some t"
    and "(jr_status (snd e) = StatusPassed) = xp"
    and "fst e \<in> seenTests st \<longrightarrow> (\<exists>res. map_of (testResults st) (fst e) = Some res \<and> fst res \<noteq> xp)"
  shows "testRun (reconcileEntry X nm e st) (itemId t) = outcomeOf xp"
  using assms
  by (auto simp add: reconcileEntry_def skippedKey_def Let_def markFromXml_def passed_def
      failed_def started_def outcomeOf_def split: option.split)

lemma reconcileEntry_keeps:
  assumes "testRun st i = outcomeOf xp"
    and "\<forall>t. map_of nm (fst e) = Some t \<and> itemId t = i \<longrightarrow> (jr_status (snd e) = StatusPassed) = xp"
  shows "testRun (reconcileEntry X nm e st) i = outcomeOf xp"
  using assms
  by (auto simp add: reconcileEntry_def Let_def markFromXml_def passed_def
      failed_def started_def outcomeOf_def split: option.split)


lemma fold_invariant:
  "P m \<Longrightarrow> (\<And>x m'. P m' \<Longrightarrow> P (f x m')) \<Longrightarrow> P (fold f xs m)"
  by (induction xs arbitrary: m) auto

lemma storeResult_distinct:
  "distinct (map fst results) \<Longrightarrow> distinct (map fst (storeResult result results))"
  by (simp add: storeResult_def Let_def distinct_update)

lemma parseJUnitXml_distinct: "distinct (map fst (parseJUnitXml xml2js src))"
proof -
  have inner: "distinct (map fst (fold (\<lambda>tc results'.
        if tc_name tc = [] then results'
        else storeResult (parseTestCase tc sn) results') tcs m))"
    if "distinct (map fst m)" for tcs sn and m :: "JUnitTestResult jsmap"
    using that by (rule fold_invariant) (simp add: storeResult_distinct)
  have outer: "distinct (map fst (fold (\<lambda>suite results.
        fold (\<lambda>tc results'.
                if tc_name tc = [] then results'
                else storeResult (parseTestCase tc (ts_name suite)) results')
             (ts_testcase suite) results) suites []))" for suites
    by (rule fold_invariant) (simp_all add: inner)
  show ?thesis
    by (simp add: parseJUnitXml_def parseJUnitXmlTry_def Let_def outer
        split: sum.split)
qed

lemma reconcile_fold:
  assumes "distinct (map fst ys)"
    and "\<forall>e \<in> set ys. \<forall>t. map_of nm (fst e) = Some t \<and> itemId t = i
            \<longrightarrow> (jr_status (snd e) = StatusPassed) = xp"
    and "\<forall>k res t. map_of (testResults st) k = Some res \<and> map_of nm k = Some t \<and> itemId t = i
            \<longrightarrow> fst res = sp"
    and "\<forall>k \<in> fst ` set ys. k \<in> seenTests st \<longrightarrow> map_of (testResults st) k \<noteq> None"
    and "sp \<noteq> xp"
    and "testRun st i = outcomeOf xp
         \<or> (\<exists>e \<in> set ys. \<not> skippedKey X (fst e) \<and> (\<exists>t. map_of nm (fst e) = Some t \<and> itemId t = i))"
  shows "testRun (fold (reconcileEntry X nm) ys st) i = outcomeOf xp"
  using assms
proof (induction ys arbitrary: st)
  case Nil
  then show ?case by simp
next
  case (Cons e ys)
  let ?st = "reconcileEntry X nm e st"
  have d: "distinct (map fst ys)" and ne: "fst e \<notin> fst ` set ys" using Cons.prems(1) by auto
  have rep: "\<forall>e \<in> set ys. \<forall>t. map_of nm (fst e) = Some t \<and> itemId t = i
            \<longrightarrow> (jr_status (snd e) = StatusPassed) = xp"
    using Cons.prems(2) by simp
  have repe: "\<forall>t. map_of nm (fst e) = Some t \<and> itemId t = i
            \<longrightarrow> (jr_status (snd e) = StatusPassed) = xp"
    using Cons.prems(2) by simp
  have str: "\<forall>k res t. map_of (testResults ?st) k = Some res \<and> map_of nm k = Some t \<and> itemId t = i
            \<longrightarrow> fst res = sp"
    using Cons.prems(3) by (simp add: reconcileEntry_results)
  have seen: "\<forall>k \<in> fst ` set ys. k \<in> seenTests ?st \<longrightarrow> map_of (testResults ?st) k \<noteq> None"
  proof
    fix k assume k: "k \<in> fst ` set ys"
    show "k \<in> seenTests ?st \<longrightarrow> map_of (testResults ?st) k \<noteq> None"
    proof
      assume "k \<in> seenTests ?st"
      then have "k \<in> insert (fst e) (seenTests st)" using reconcileEntry_seen by blast
      moreover have "k \<noteq> fst e" using k ne by blast
      ultimately have "k \<in> seenTests st" by simp
      moreover have "k \<in> fst ` set (e # ys)" using k by simp
      ultimately have "map_of (testResults st) k \<noteq> None"
        using Cons.prems(4) by blast
      then show "map_of (testResults ?st) k \<noteq> None"
        by (simp add: reconcileEntry_results)
    qed
  qed
  have step: "testRun ?st i = outcomeOf xp
         \<or> (\<exists>e \<in> set ys. \<not> skippedKey X (fst e) \<and> (\<exists>t. map_of nm (fst e) = Some t \<and> itemId t = i))"
  proof (cases "testRun st i = outcomeOf xp")
    case True
    then show ?thesis using reconcileEntry_keeps [OF True repe] by simp
  next
    case False
    then have ex: "\<exists>e' \<in> set (e # ys). \<not> skippedKey X (fst e')
        \<and> (\<exists>t. map_of nm (fst e') = Some t \<and> itemId t = i)"
      using Cons.prems(6) by blast
    show ?thesis
    proof (cases "\<not> skippedKey X (fst e) \<and> (\<exists>t. map_of nm (fst e) = Some t \<and> itemId t = i)")
      case True
      then obtain t where sk: "\<not> skippedKey X (fst e)" and t: "map_of nm (fst e) = Some t"
        and ti: "itemId t = i" by blast
      have xp: "(jr_status (snd e) = StatusPassed) = xp" using repe t ti by blast
      have sn: "fst e \<in> seenTests st
          \<longrightarrow> (\<exists>res. map_of (testResults st) (fst e) = Some res \<and> fst res \<noteq> xp)"
      proof
        assume "fst e \<in> seenTests st"
        then obtain res where r: "map_of (testResults st) (fst e) = Some res"
          using Cons.prems(4) by auto
        then have "fst res = sp" using Cons.prems(3) t ti by blast
        then show "\<exists>res. map_of (testResults st) (fst e) = Some res \<and> fst res \<noteq> xp"
          using r Cons.prems(5) by blast
      qed
      from reconcileEntry_marks [OF sk t xp sn] ti show ?thesis by simp
    next
      case False
      then show ?thesis using ex by auto
    qed
  qed
  have "testRun (fold (reconcileEntry X nm) ys ?st) i = outcomeOf xp"
    by (rule Cons.IH [OF d rep str seen Cons.prems(5) step])
  then show ?case by simp
qed

lemma loginReport_results:
  "parseJUnitXml loginReader loginReport =
     [(js ''testLogin'', loginResult), (js ''testlogin'', loginResult),
      (js ''Login'', loginResult), (js ''login'', loginResult)]"
  by (simp add: parseJUnitXml_def parseJUnitXmlTry_def loginReport_def loginReader_def
      loginCase_def loginResult_def strOrEmpty_def strOr_def trim_def isSpace_def
      extractTestSuites_def storeResult_def parseTestCase_def toLowerCase_def toLowerUnit_def
      Let_def)

lemma afterCrossLogin_state:
  "afterCrossLogin = \<lparr> testRun = newRun (itemId exLoginA := Failed),
                        seenTests = {js ''testLogin''},
                        testResults = [(js ''testLogin'', (False, crossGlyph # js '' testLogin''))] \<rparr>"
  unfolding afterCrossLogin_def exNameMap crossLogin_callbacks
  by (simp add: deliver_def onTestResult_def newStreaming_def started_def failed_def)

text \<open>
  C1. Let the report be present, and let a test item have an entry in it that the loop does not
  skip. If all report entries that resolve to the item have the same outcome, all streaming
  results recorded for names of the item have the other outcome, and every seen name has a
  streaming result (as \<open>onTestResult\<close> maintains), then after \<open>reconcileWithXmlResults\<close> the
  item is Passed when the report status is passed and Failed otherwise.
\<close>

theorem reconciliation_precedence:
  assumes "hostExists src"
    and "(testName, xmlResult) \<in> set (parseJUnitXml xml2js src)"
    and "toLowerCase testName = testName
         \<or> \<not> mapHas (parseJUnitXml xml2js src) (toLowerCase testName)"
    and "map_of testNameMap testName = Some testItem"
    and "\<forall>e \<in> set (parseJUnitXml xml2js src). \<forall>t.
            map_of testNameMap (fst e) = Some t \<and> itemId t = itemId testItem
            \<longrightarrow> (jr_status (snd e) = StatusPassed) = xmlPassed"
    and "\<forall>k res t. map_of (testResults st) k = Some res \<and> map_of testNameMap k = Some t
            \<and> itemId t = itemId testItem \<longrightarrow> fst res = streamingPassed"
    and "\<forall>k \<in> seenTests st. map_of (testResults st) k \<noteq> None"
    and "streamingPassed \<noteq> xmlPassed"
  shows "testRun (reconcileWithXmlResults xml2js src testNameMap st) (itemId testItem)
           = (if xmlPassed then Passed else Failed)"
proof -
  let ?X = "parseJUnitXml xml2js src"
  have ne: "?X \<noteq> []" using assms(2) by auto
  have seen: "\<forall>k \<in> fst ` set ?X. k \<in> seenTests st \<longrightarrow> map_of (testResults st) k \<noteq> None"
    using assms(7) by blast
  have ex: "testRun st (itemId testItem) = outcomeOf xmlPassed
      \<or> (\<exists>e \<in> set ?X. \<not> skippedKey ?X (fst e)
            \<and> (\<exists>t. map_of testNameMap (fst e) = Some t \<and> itemId t = itemId testItem))"
  proof (rule disjI2, rule bexI [of _ "(testName, xmlResult)"])
    show "\<not> skippedKey ?X (fst (testName, xmlResult))
        \<and> (\<exists>t. map_of testNameMap (fst (testName, xmlResult)) = Some t
              \<and> itemId t = itemId testItem)"
      using assms(3,4) by (auto simp add: skippedKey_def)
  qed (rule assms(2))
  have "testRun (fold (reconcileEntry ?X testNameMap) ?X st) (itemId testItem)
      = outcomeOf xmlPassed"
    by (rule reconcile_fold [OF parseJUnitXml_distinct assms(5) assms(6) seen assms(8) ex])
  then show ?thesis using assms(1) ne
    by (simp add: reconcileWithXmlResults_def Let_def outcomeOf_def)
qed

theorem reconciliation_precedence_witness:
  "testRun afterCrossLogin (itemId exLoginA) = Failed
   \<and> jr_status loginResult = StatusPassed
   \<and> testRun (reconcileWithXmlResults loginReader loginReport (buildTestNameMap exSuite)
                afterCrossLogin) (itemId exLoginA) = Passed"
proof -
  have h1: "hostExists loginReport" by (simp add: loginReport_def)
  have h2: "(js ''testlogin'', loginResult) \<in> set (parseJUnitXml loginReader loginReport)"
    by (simp add: loginReport_results)
  have h3: "toLowerCase (js ''testlogin'') = js ''testlogin''
      \<or> \<not> mapHas (parseJUnitXml loginReader loginReport) (toLowerCase (js ''testlogin''))"
    by (simp add: toLowerCase_def toLowerUnit_def)
  have h4: "map_of (buildTestNameMap exSuite) (js ''testlogin'') = Some exLoginA"
    by (simp add: exNameMap)
  have h5: "\<forall>e \<in> set (parseJUnitXml loginReader loginReport). \<forall>t.
            map_of (buildTestNameMap exSuite) (fst e) = Some t \<and> itemId t = itemId exLoginA
            \<longrightarrow> (jr_status (snd e) = StatusPassed) = True"
    by (simp add: loginReport_results loginResult_def)
  have h6: "\<forall>k res t. map_of (testResults afterCrossLogin) k = Some res
            \<and> map_of (buildTestNameMap exSuite) k = Some t
            \<and> itemId t = itemId exLoginA \<longrightarrow> fst res = False"
    by (auto simp add: afterCrossLogin_state split: if_splits)
  have h7: "\<forall>k \<in> seenTests afterCrossLogin. map_of (testResults afterCrossLogin) k \<noteq> None"
    by (simp add: afterCrossLogin_state)
  have h8: "False \<noteq> True" by simp
  have s: "testRun afterCrossLogin (itemId exLoginA) = Failed"
    by (simp add: afterCrossLogin_state)
  show ?thesis
    using reconciliation_precedence [OF h1 h2 h3 h4 h5 h6 h7 h8] s
    by (simp add: loginResult_def)
qed

end
